theory Spec2Isabelle
  imports Main "HOL-Library.Char_ord" "HOL-Library.List_Lexorder"
begin

section \<open>String helpers\<close>

text \<open>
  The program never calls \<^verbatim>\<open>setlocale\<close>, so \<^verbatim>\<open>std::isspace\<close> and \<^verbatim>\<open>std::toupper\<close>
  are those of the "C" locale: the white-space characters are space, \<^verbatim>\<open>\t \n \v \f \r\<close>, and
  only the letters \<^verbatim>\<open>a\<close> .. \<^verbatim>\<open>z\<close> are changed by \<^verbatim>\<open>toupper\<close>. A \<^verbatim>\<open>std::string\<close> is a
  \<^typ>\<open>string\<close>, a list of 8-bit characters; \<^verbatim>\<open>operator<\<close> on it is the lexicographic order
  of the characters read as unsigned bytes, which is the order of \<^typ>\<open>char list\<close> here.
\<close>

definition isspace :: "char \<Rightarrow> bool" where
  "isspace c = (c = CHR '' '' \<or> c = CHR 0x09 \<or> c = CHR 0x0A \<or> c = CHR 0x0B
                \<or> c = CHR 0x0C \<or> c = CHR 0x0D)"

definition toupper :: "char \<Rightarrow> char" where
  "toupper c = (if CHR ''a'' \<le> c \<and> c \<le> CHR ''z'' then char_of (of_char c - (32::nat)) else c)"

text \<open>
  \<^verbatim>\<open>trimCopy\<close>: the first loop advances \<^verbatim>\<open>b\<close> over leading white space, the second moves
  \<^verbatim>\<open>e\<close> back over trailing white space but never below \<^verbatim>\<open>b\<close>; the result is the substring
  between them.
\<close>

definition trimCopy :: "string \<Rightarrow> string" where
  "trimCopy s = (let s1 = dropWhile isspace s in rev (dropWhile isspace (rev s1)))"

definition toUpperInPlace :: "string \<Rightarrow> string" where
  "toUpperInPlace s = map toupper s"

text \<open>
  \<^verbatim>\<open>std::getline(iss, cur, delim)\<close> on the rest of a stream: it fails (\<open>None\<close>) when nothing
  is left; otherwise it extracts the characters up to the first delimiter, which it
  consumes, or up to the end of the stream.
\<close>

fun getline :: "char \<Rightarrow> string \<Rightarrow> (string \<times> string) option" where
  "getline d [] = None"
| "getline d (c # cs) =
     (if c = d then Some ([], cs)
      else (case getline d cs of
              None \<Rightarrow> Some ([c], [])
            | Some (cur, rest) \<Rightarrow> Some (c # cur, rest)))"

function splitCSV_loop :: "string \<Rightarrow> string list" where
  "splitCSV_loop s =
     (case getline (CHR '','') s of
        None \<Rightarrow> []
      | Some (cur, rest) \<Rightarrow> trimCopy cur # splitCSV_loop rest)"
  by pat_completeness auto
termination
proof (relation "measure length")
  show "wf (measure length)" by simp
next
  fix s :: string and x2 :: "string \<times> string" and cur rest :: string
  assume a: "getline (CHR '','') s = Some x2" and b: "(cur, rest) = x2"
  have shorter: "getline d t = Some (u, v) \<Longrightarrow> length v < length t" for d t u v
    by (induction t arbitrary: u v) (auto split: if_splits option.splits)
  from a b have "getline (CHR '','') s = Some (cur, rest)" by simp
  then have "length rest < length s" by (rule shorter)
  then show "(rest, s) \<in> measure length" by simp
qed

declare splitCSV_loop.simps [simp del]

definition splitCSV :: "string \<Rightarrow> string list" where
  "splitCSV line = splitCSV_loop line"

section \<open>Core domain model\<close>

record Course =
  number :: string
  title :: string
  prereqs :: "string list"

section \<open>Binary search tree keyed by course number\<close>

text \<open>
  A \<^verbatim>\<open>Node*\<close> is either \<^verbatim>\<open>nullptr\<close> or owns a node with a course and two subtrees; the
  tree is never shared, so it is a datatype. The fields \<^verbatim>\<open>root_\<close>, \<^verbatim>\<open>count_\<close>, \<^verbatim>\<open>tree_\<close>,
  \<^verbatim>\<open>index_\<close>, \<^verbatim>\<open>loaded_\<close> and \<^verbatim>\<open>lastFilename_\<close> are written with the suffix \<open>_f\<close>, a name
  cannot end with an underscore here. \<^verbatim>\<open>count_\<close> is a \<^verbatim>\<open>size_t\<close> that grows by one with each
  node allocated, so it stays far below \<open>2^64\<close> and is a \<^typ>\<open>nat\<close>.
\<close>

datatype Node = Nullptr | Node (course: Course) (left: Node) (right: Node)

record CourseBST =
  root_f :: Node
  count_f :: nat

definition CourseBST_init :: CourseBST where
  "CourseBST_init = \<lparr>root_f = Nullptr, count_f = 0\<rparr>"

definition clearAll :: "CourseBST \<Rightarrow> CourseBST" where
  "clearAll t = t\<lparr>root_f := Nullptr, count_f := 0\<rparr>"

definition size_bst :: "CourseBST \<Rightarrow> nat" where
  "size_bst t = count_f t"

text \<open>\<^verbatim>\<open>insertOrAssignImpl\<close> changes the subtree it is given and \<^verbatim>\<open>count_\<close>; both are returned.\<close>

fun insertOrAssignImpl :: "Node \<Rightarrow> Course \<Rightarrow> nat \<Rightarrow> Node \<times> nat" where
  "insertOrAssignImpl Nullptr c cnt = (Node c Nullptr Nullptr, cnt + 1)"
| "insertOrAssignImpl (Node k l r) c cnt =
     (if number c < number k then
        (let (l', cnt') = insertOrAssignImpl l c cnt in (Node k l' r, cnt'))
      else if number c > number k then
        (let (r', cnt') = insertOrAssignImpl r c cnt in (Node k l r', cnt'))
      else (Node (k\<lparr>title := title c, prereqs := prereqs c\<rparr>) l r, cnt))"

definition insertOrAssign :: "CourseBST \<Rightarrow> Course \<Rightarrow> CourseBST" where
  "insertOrAssign t c =
     (let (n, cnt) = insertOrAssignImpl (root_f t) c (count_f t)
      in t\<lparr>root_f := n, count_f := cnt\<rparr>)"

text \<open>The loop of \<^verbatim>\<open>CourseBST::find\<close>, from the node \<^verbatim>\<open>cur\<close>; \<open>None\<close> is \<^verbatim>\<open>nullptr\<close>.\<close>

fun find_loop :: "Node \<Rightarrow> string \<Rightarrow> Course option" where
  "find_loop Nullptr num = None"
| "find_loop (Node k l r) num =
     (if num = number k then Some k
      else if num < number k then find_loop l num
      else find_loop r num)"

definition find_bst :: "CourseBST \<Rightarrow> string \<Rightarrow> Course option" where
  "find_bst t num = find_loop (root_f t) num"

text \<open>The in-order traversal, as the sequence of courses the callback is called with.\<close>

fun inOrderImpl :: "Node \<Rightarrow> Course list" where
  "inOrderImpl Nullptr = []"
| "inOrderImpl (Node k l r) = inOrderImpl l @ k # inOrderImpl r"

definition inOrder :: "CourseBST \<Rightarrow> Course list" where
  "inOrder t = inOrderImpl (root_f t)"

section \<open>The planner: loading and the two queries\<close>

record CoursePlanner =
  tree_f :: CourseBST
  index_f :: "string \<rightharpoonup> string"
  loaded_f :: bool
  lastFilename_f :: string

definition CoursePlanner_init :: CoursePlanner where
  "CoursePlanner_init =
     \<lparr>tree_f = CourseBST_init, index_f = Map.empty, loaded_f = False, lastFilename_f = []\<rparr>"

datatype load_error = CouldNotOpen string | NoValidRecords

text \<open>
  The state of the reading loop of \<^verbatim>\<open>loadFromFile\<close>: the two containers, the three
  counters, and the line numbers of the warnings written to \<^verbatim>\<open>std::cerr\<close> so far.
\<close>

record load_state =
  ls_tree :: CourseBST
  ls_index :: "string \<rightharpoonup> string"
  lineNum :: nat
  loaded :: nat
  skipped :: nat
  warnings :: "nat list"

text \<open>The loop over \<^verbatim>\<open>parts[2..]\<close> that collects the prerequisites.\<close>

fun prereqLoop :: "string list \<Rightarrow> string list \<Rightarrow> string list" where
  "prereqLoop [] acc = acc"
| "prereqLoop (part # parts) acc =
     (let p = toUpperInPlace part
      in if p \<noteq> [] then prereqLoop parts (acc @ [p]) else prereqLoop parts acc)"

text \<open>The course built from the fields of a row; it is only called with two fields or more.\<close>

definition makeCourse :: "string list \<Rightarrow> Course" where
  "makeCourse parts =
     (let courseNum = toUpperInPlace (parts ! 0)
      in \<lparr>number = courseNum, title = parts ! 1, prereqs = prereqLoop (drop 2 parts) []\<rparr>)"

fun loadLoop :: "string list \<Rightarrow> load_state \<Rightarrow> load_state" where
  "loadLoop [] st = st"
| "loadLoop (line # rest) st =
     (let st1 = st\<lparr>lineNum := lineNum st + 1\<rparr>;
          trimmed = trimCopy line
      in if trimmed = [] then loadLoop rest st1
         else
           (let parts = splitCSV trimmed
            in if length parts < 2 then
                 loadLoop rest
                   (st1\<lparr>warnings := warnings st1 @ [lineNum st1], skipped := skipped st1 + 1\<rparr>)
               else
                 (let c = makeCourse parts
                  in loadLoop rest
                       (st1\<lparr>ls_tree := insertOrAssign (ls_tree st1) c,
                            ls_index := (ls_index st1)(number c \<mapsto> title c),
                            loaded := loaded st1 + 1\<rparr>))))"

text \<open>
  \<^verbatim>\<open>loadFromFile\<close>. The file system is outside the program: the second argument is
  \<open>None\<close> when the file cannot be opened and otherwise the lines that \<^verbatim>\<open>std::getline\<close>
  reads from it. The result is the planner afterwards, the line numbers of the warnings
  on \<^verbatim>\<open>std::cerr\<close>, and either the error or the two counts of the message
  \<^verbatim>\<open>Loaded n course(s) (k line(s) skipped ...)\<close>.
\<close>

definition loadFromFile ::
  "CoursePlanner \<Rightarrow> string \<Rightarrow> string list option
     \<Rightarrow> CoursePlanner \<times> nat list \<times> (load_error + nat \<times> nat)" where
  "loadFromFile p filename file =
     (case file of
        None \<Rightarrow> (p, [], Inl (CouldNotOpen filename))
      | Some lines \<Rightarrow>
          (let st = loadLoop lines
                      \<lparr>ls_tree = clearAll (tree_f p), ls_index = Map.empty,
                       lineNum = 0, loaded = 0, skipped = 0, warnings = []\<rparr>;
               p1 = p\<lparr>tree_f := ls_tree st, index_f := ls_index st\<rparr>
           in if loaded st = 0 then (p1, warnings st, Inl NoValidRecords)
              else (p1\<lparr>loaded_f := True, lastFilename_f := filename\<rparr>,
                    warnings st, Inr (loaded st, skipped st))))"

definition isLoaded :: "CoursePlanner \<Rightarrow> bool" where
  "isLoaded p = loaded_f p"

text \<open>
  The queries print; the model returns what is printed. \<open>NotLoaded\<close> is the message
  \<^verbatim>\<open>Please load data first\<close>, \<open>EmptyQueryKey\<close> is \<^verbatim>\<open>course number cannot be empty\<close>,
  \<open>NotFound num\<close> is \<^verbatim>\<open>Course "num" was not found\<close>. A listing is the printed
  \<^verbatim>\<open>number, title\<close> lines and the total; a description is the heading \<^verbatim>\<open>number: title\<close>
  and either \<^verbatim>\<open>Prerequisites: None\<close> or one line for each prerequisite.
\<close>

datatype query_error = NotLoaded | EmptyQueryKey | NotFound string

datatype prereq_line = Resolved string string | TitleNotFound string

datatype prereq_report = PrereqsNone | PrereqLines "prereq_line list"

datatype course_info = CourseInfo string string prereq_report

definition printCourseList :: "CoursePlanner \<Rightarrow> query_error + (string \<times> string) list \<times> nat" where
  "printCourseList p =
     (if \<not> loaded_f p then Inl NotLoaded
      else (let visited = inOrder (tree_f p)
            in Inr (map (\<lambda>c. (number c, title c)) visited, length visited)))"

definition prereqLine :: "(string \<rightharpoonup> string) \<Rightarrow> string \<Rightarrow> prereq_line" where
  "prereqLine idx p = (case idx p of Some t \<Rightarrow> Resolved p t | None \<Rightarrow> TitleNotFound p)"

definition printCourseInfo :: "CoursePlanner \<Rightarrow> string \<Rightarrow> query_error + course_info" where
  "printCourseInfo p rawNumber =
     (if \<not> loaded_f p then Inl NotLoaded
      else (let num = toUpperInPlace (trimCopy rawNumber)
            in if num = [] then Inl EmptyQueryKey
               else (case find_bst (tree_f p) num of
                       None \<Rightarrow> Inl (NotFound num)
                     | Some c \<Rightarrow>
                         if prereqs c = [] then Inr (CourseInfo (number c) (title c) PrereqsNone)
                         else Inr (CourseInfo (number c) (title c)
                                     (PrereqLines (map (prereqLine (index_f p)) (prereqs c)))))))"

section \<open>Notions used in the statements\<close>

text \<open>
  The keys of a subtree, the search-tree invariant, and the invariant of a \<open>CourseBST\<close>:
  its root is a search tree and \<open>count_f\<close> is the number of its nodes.
\<close>

definition keys :: "Node \<Rightarrow> string set" where
  "keys n = number ` set (inOrderImpl n)"

fun bst :: "Node \<Rightarrow> bool" where
  "bst Nullptr = True"
| "bst (Node k l r) =
     (bst l \<and> bst r \<and> (\<forall>x\<in>keys l. x < number k) \<and> (\<forall>x\<in>keys r. number k < x))"

definition wf_tree :: "CourseBST \<Rightarrow> bool" where
  "wf_tree t = (bst (root_f t) \<and> count_f t = length (inOrderImpl (root_f t)))"

text \<open>
  The three kinds of rows the reading loop tells apart, with the loop's own tests: a row
  that is empty after trimming, a row with fewer than two fields, and a row that is
  loaded; \<open>rowCourse\<close> is the course the loop builds from a loaded row.
\<close>

definition isValid :: "string \<Rightarrow> bool" where
  "isValid line = (trimCopy line \<noteq> [] \<and> \<not> length (splitCSV (trimCopy line)) < 2)"

definition isMalformed :: "string \<Rightarrow> bool" where
  "isMalformed line = (trimCopy line \<noteq> [] \<and> length (splitCSV (trimCopy line)) < 2)"

definition rowCourse :: "string \<Rightarrow> Course" where
  "rowCourse line = makeCourse (splitCSV (trimCopy line))"

definition validCourses :: "string list \<Rightarrow> Course list" where
  "validCourses lines = map rowCourse (filter isValid lines)"

text \<open>
  The index after the rows' courses have been recorded in order, and the line numbers of
  the rows skipped with a warning (the first line of the file is line 1).
\<close>

definition indexOf :: "Course list \<Rightarrow> (string \<rightharpoonup> string) \<Rightarrow> (string \<rightharpoonup> string)" where
  "indexOf cs m = foldl (\<lambda>m c. m(number c \<mapsto> title c)) m cs"

definition warningLines :: "string list \<Rightarrow> nat list" where
  "warningLines lines = map Suc (filter (\<lambda>i. isMalformed (lines ! i)) [0..<length lines])"

text \<open>
  A sequence of calls of \<^verbatim>\<open>loadFromFile\<close> on one planner, as the menu loop makes them: the
  planner afterwards, and whether one of the calls returned \<^verbatim>\<open>true\<close>.
\<close>

fun runLoads :: "CoursePlanner \<Rightarrow> (string \<times> string list option) list \<Rightarrow> CoursePlanner \<times> bool" where
  "runLoads p [] = (p, False)"
| "runLoads p ((filename, file) # calls) =
     (case loadFromFile p filename file of
        (p', w, res) \<Rightarrow>
          (case runLoads p' calls of (p'', ok) \<Rightarrow> (p'', ok \<or> \<not> isl res)))"

text \<open>The sample file of the program's header comment, and the planner that has loaded it.\<close>

definition example_rows :: "string list" where
  "example_rows =
     [''CSCI100,Introduction to Computer Science'',
      ''CSCI200,Data Structures,CSCI100'',
      ''MATH201,Discrete Mathematics,MATH101,CSCI100'']"

definition example_planner :: CoursePlanner where
  "example_planner = fst (loadFromFile CoursePlanner_init ''courses.csv'' (Some example_rows))"

text \<open>A file in which two rows carry the course number \<^verbatim>\<open>CSCI100\<close>, and the planner after it.\<close>

definition duplicate_planner :: CoursePlanner where
  "duplicate_planner =
     fst (loadFromFile CoursePlanner_init ''courses.csv''
            (Some ([''MATH101,Algebra''] @ ''csci100,Old title,MATH101'' # [''X1''] @
                   ''CSCI100,New title'' # [''CSCI200,Data Structures,CSCI100''])))"

text \<open>A file with a blank first line, two rows of one field, and two rows that load.\<close>

definition skipping_rows :: "string list" where
  "skipping_rows =
     ['''', ''X1'', ''CSCI100,Introduction to Computer Science'', ''   '', ''Y2,'',
      ''CSCI200,Data Structures,CSCI100'']"

section \<open>Properties of the string helpers\<close>

lemma toupper_cases:
  "toupper c = c \<or> ((of_char (toupper c) :: nat) \<in> {65..90} \<and> (of_char c :: nat) \<in> {97..122})"
proof (cases "CHR ''a'' \<le> c \<and> c \<le> CHR ''z''")
  case True
  then have r: "97 \<le> (of_char c :: nat)" "(of_char c :: nat) \<le> 122"
    by (simp_all add: less_eq_char_def)
  from True have "(of_char (toupper c) :: nat) = (of_char c - 32) mod 256"
    by (simp add: toupper_def of_char_of)
  with r have "(of_char (toupper c) :: nat) \<in> {65..90}" by auto
  with r show ?thesis by simp
next
  case False
  then have "toupper c = c"
    unfolding toupper_def by (rule if_not_P)
  then show ?thesis by simp
qed

lemma isspace_code: "isspace c \<longleftrightarrow> (of_char c :: nat) \<in> {32, 9, 10, 11, 12, 13}"
  unfolding isspace_def of_char_eq_iff [where ?'a = nat, symmetric] by simp

lemma isspace_toupper [simp]: "isspace (toupper c) = isspace c"
proof (cases "toupper c = c")
  case True
  then show ?thesis by simp
next
  case False
  with toupper_cases [of c]
  have "(of_char (toupper c) :: nat) \<in> {65..90}" and "(of_char c :: nat) \<in> {97..122}"
    by simp_all
  then have "\<not> isspace (toupper c)" and "\<not> isspace c"
    unfolding isspace_code by auto
  then show ?thesis by simp
qed

lemma isspace_o_toupper [simp]: "isspace \<circ> toupper = isspace"
  by (rule ext) simp

lemma toupper_idem [simp]: "toupper (toupper c) = toupper c"
proof (cases "toupper c = c")
  case True
  then show ?thesis by simp
next
  case False
  with toupper_cases [of c] have "(of_char (toupper c) :: nat) \<in> {65..90}"
    by simp
  then have "\<not> (CHR ''a'' \<le> toupper c \<and> toupper c \<le> CHR ''z'')"
    by (simp add: less_eq_char_def)
  then show ?thesis
    unfolding toupper_def [of "toupper c"] by (rule if_not_P)
qed

lemma toUpperInPlace_idem [simp]: "toUpperInPlace (toUpperInPlace s) = toUpperInPlace s"
  by (simp add: toUpperInPlace_def)

lemma trimCopy_toUpperInPlace: "trimCopy (toUpperInPlace s) = toUpperInPlace (trimCopy s)"
  by (simp add: trimCopy_def toUpperInPlace_def dropWhile_map rev_map)

lemma trimCopy_idem [simp]: "trimCopy (trimCopy s) = trimCopy s"
proof -
  define t where "t = dropWhile isspace s"
  define u where "u = rev (dropWhile isspace (rev t))"
  have t: "t = u @ rev (takeWhile isspace (rev t))"
  proof -
    have "t = rev (takeWhile isspace (rev t) @ dropWhile isspace (rev t))"
      by (simp only: takeWhile_dropWhile_id rev_rev_ident)
    then show ?thesis by (simp only: rev_append u_def)
  qed
  have front: "dropWhile isspace u = u"
  proof (cases "u = []")
    case True then show ?thesis by simp
  next
    case False
    then have "hd u = hd t" using t by (metis hd_append2)
    moreover have "t \<noteq> []" using False t by auto
    then have "\<not> isspace (hd t)" unfolding t_def by (rule hd_dropWhile)
    ultimately show ?thesis using False by (cases u) auto
  qed
  have rear: "dropWhile isspace (rev u) = rev u"
  proof (cases "u = []")
    case True then show ?thesis by simp
  next
    case False
    then have ne: "dropWhile isspace (rev t) \<noteq> []" by (simp add: u_def)
    then have "\<not> isspace (hd (dropWhile isspace (rev t)))" by (rule hd_dropWhile)
    with ne show ?thesis by (cases "dropWhile isspace (rev t)") (auto simp: u_def)
  qed
  have "trimCopy s = u" by (simp add: trimCopy_def t_def u_def)
  moreover have "trimCopy u = u" by (simp add: trimCopy_def front rear)
  ultimately show ?thesis by simp
qed

lemma splitCSV_loop_trimmed: "x \<in> set (splitCSV_loop s) \<Longrightarrow> trimCopy x = x"
proof (induction s rule: splitCSV_loop.induct)
  case (1 s)
  show ?case
  proof (cases "getline (CHR '','') s")
    case None
    with "1.prems" show ?thesis by (simp add: splitCSV_loop.simps [of s])
  next
    case (Some a)
    obtain cur rest where a: "a = (cur, rest)" by (cases a)
    from "1.prems" Some a have "x = trimCopy cur \<or> x \<in> set (splitCSV_loop rest)"
      by (simp add: splitCSV_loop.simps [of s])
    then show ?thesis
    proof
      assume "x = trimCopy cur" then show ?thesis by simp
    next
      assume "x \<in> set (splitCSV_loop rest)"
      then show ?thesis using "1.IH" [OF Some a [symmetric]] by simp
    qed
  qed
qed

lemma prereqLoop_eq: "prereqLoop parts acc = acc @ filter (\<lambda>p. p \<noteq> []) (map toUpperInPlace parts)"
  by (induction parts arbitrary: acc) (auto simp: Let_def)


section \<open>Properties of the tree and of the reading loop\<close>

lemma keys_simps [simp]:
  "keys Nullptr = {}"
  "keys (Node k l r) = insert (number k) (keys l \<union> keys r)"
  by (auto simp: keys_def)

lemma keys_insertImpl:
  "keys (fst (insertOrAssignImpl n c cnt)) = insert (number c) (keys n)"
proof (induction n arbitrary: cnt)
  case Nullptr
  show ?case by simp
next
  case (Node k l r)
  show ?case
  proof (cases "number c < number k")
    case True
    then show ?thesis
      using Node.IH(1) [of cnt] by (cases "insertOrAssignImpl l c cnt") auto
  next
    case False
    show ?thesis
    proof (cases "number k < number c")
      case True
      with False show ?thesis
        using Node.IH(2) [of cnt] by (cases "insertOrAssignImpl r c cnt") auto
    next
      case nlt: False
      with False have "number c = number k" by simp
      with False nlt show ?thesis by simp
    qed
  qed
qed

lemma bst_insertImpl: "bst n \<Longrightarrow> bst (fst (insertOrAssignImpl n c cnt))"
proof (induction n)
  case Nullptr
  show ?case by simp
next
  case (Node k l r)
  have kl: "keys (fst (insertOrAssignImpl l c cnt)) = insert (number c) (keys l)"
    by (rule keys_insertImpl)
  have kr: "keys (fst (insertOrAssignImpl r c cnt)) = insert (number c) (keys r)"
    by (rule keys_insertImpl)
  from Node kl kr show ?case
    by (auto split: prod.splits)
qed

lemma length_insertImpl:
  "bst n \<Longrightarrow> length (inOrderImpl (fst (insertOrAssignImpl n c cnt))) =
     (if number c \<in> keys n then length (inOrderImpl n) else length (inOrderImpl n) + 1)"
  by (induction n) (auto split: prod.splits)

lemma count_insertImpl:
  "bst n \<Longrightarrow> snd (insertOrAssignImpl n c cnt) = (if number c \<in> keys n then cnt else cnt + 1)"
  by (induction n) (auto split: prod.splits)

lemma find_insertImpl:
  "find_loop (fst (insertOrAssignImpl n c cnt)) num =
     (if num = number c then Some c else find_loop n num)"
  by (induction n) (auto split: prod.splits)

lemma find_loop_iff:
  "bst n \<Longrightarrow> find_loop n num = Some c \<longleftrightarrow> c \<in> set (inOrderImpl n) \<and> number c = num"
  by (induction n) (auto simp: keys_def)

lemma find_loop_None: "bst n \<Longrightarrow> find_loop n num = None \<longleftrightarrow> num \<notin> keys n"
  by (induction n) (auto)

lemma bst_sorted: "bst n \<Longrightarrow> sorted_wrt (<) (map number (inOrderImpl n))"
  by (induction n) (force simp: sorted_wrt_append keys_def intro: less_trans)+

lemma wf_tree_clearAll: "wf_tree (clearAll t)"
  by (simp add: wf_tree_def clearAll_def)

lemma root_insertOrAssign:
  "root_f (insertOrAssign t c) = fst (insertOrAssignImpl (root_f t) c (count_f t))"
  by (simp add: insertOrAssign_def split: prod.splits)

lemma count_insertOrAssign:
  "count_f (insertOrAssign t c) = snd (insertOrAssignImpl (root_f t) c (count_f t))"
  by (simp add: insertOrAssign_def split: prod.splits)

lemma wf_tree_insertOrAssign:
  assumes "wf_tree t"
  shows "wf_tree (insertOrAssign t c)"
proof -
  from assms have b: "bst (root_f t)" and n: "count_f t = length (inOrderImpl (root_f t))"
    by (simp_all add: wf_tree_def)
  have "bst (root_f (insertOrAssign t c))"
    unfolding root_insertOrAssign using b by (rule bst_insertImpl)
  moreover have "count_f (insertOrAssign t c) = length (inOrderImpl (root_f (insertOrAssign t c)))"
    unfolding root_insertOrAssign count_insertOrAssign
    by (simp only: length_insertImpl [OF b] count_insertImpl [OF b] n)
  ultimately show ?thesis by (simp add: wf_tree_def)
qed

lemma keys_insertOrAssign:
  "keys (root_f (insertOrAssign t c)) = insert (number c) (keys (root_f t))"
  by (simp only: root_insertOrAssign keys_insertImpl)

lemma find_insertOrAssign:
  "find_bst (insertOrAssign t c) num = (if num = number c then Some c else find_bst t num)"
  using find_insertImpl [of "root_f t" c "count_f t" num]
  by (auto simp: insertOrAssign_def find_bst_def split: prod.splits)

lemma wf_tree_foldl: "wf_tree t \<Longrightarrow> wf_tree (foldl insertOrAssign t cs)"
  by (induction cs arbitrary: t) (auto intro: wf_tree_insertOrAssign)

lemma keys_foldl:
  "keys (root_f (foldl insertOrAssign t cs)) = keys (root_f t) \<union> number ` set cs"
  by (induction cs arbitrary: t) (auto simp: keys_insertOrAssign)

lemma find_foldl:
  "find_bst (foldl insertOrAssign t cs) num =
     (case find (\<lambda>c. number c = num) (rev cs) of Some c \<Rightarrow> Some c | None \<Rightarrow> find_bst t num)"
  by (induction cs rule: rev_induct) (auto simp: find_insertOrAssign)

lemma indexOf_apply:
  "indexOf cs m num =
     (case find (\<lambda>c. number c = num) (rev cs) of Some c \<Rightarrow> Some (title c) | None \<Rightarrow> m num)"
  unfolding indexOf_def
  by (induction cs rule: rev_induct) auto


lemma classify_row:
  "trimCopy l = [] \<or> isMalformed l \<or> isValid l"
  by (auto simp: isMalformed_def isValid_def)

lemma loadLoop_blank:
  "trimCopy l = [] \<Longrightarrow> loadLoop (l # rest) st = loadLoop rest (st\<lparr>lineNum := lineNum st + 1\<rparr>)"
  by (simp add: Let_def)

lemma loadLoop_malformed:
  "isMalformed l \<Longrightarrow> loadLoop (l # rest) st =
     loadLoop rest (st\<lparr>lineNum := lineNum st + 1, warnings := warnings st @ [lineNum st + 1],
                       skipped := skipped st + 1\<rparr>)"
  by (simp add: Let_def isMalformed_def)

lemma loadLoop_valid:
  "isValid l \<Longrightarrow> loadLoop (l # rest) st =
     loadLoop rest (st\<lparr>lineNum := lineNum st + 1,
                       ls_tree := insertOrAssign (ls_tree st) (rowCourse l),
                       ls_index := (ls_index st)(number (rowCourse l) \<mapsto> title (rowCourse l)),
                       loaded := loaded st + 1\<rparr>)"
  by (simp add: Let_def isValid_def rowCourse_def)

lemma not_valid_blank: "trimCopy l = [] \<Longrightarrow> \<not> isValid l \<and> \<not> isMalformed l"
  by (simp add: isValid_def isMalformed_def)

lemma not_valid_malformed: "isMalformed l \<Longrightarrow> \<not> isValid l"
  by (simp add: isValid_def isMalformed_def)

lemma not_malformed_valid: "isValid l \<Longrightarrow> \<not> isMalformed l"
  by (simp add: isValid_def isMalformed_def)

lemma loadLoop_tree:
  "ls_tree (loadLoop lines st) = foldl insertOrAssign (ls_tree st) (validCourses lines)"
proof (induction lines arbitrary: st)
  case Nil
  show ?case by (simp add: validCourses_def)
next
  case (Cons l ls)
  from classify_row [of l] show ?case
  proof (elim disjE)
    assume "trimCopy l = []"
    then show ?thesis
      using not_valid_blank [of l] by (simp only: loadLoop_blank Cons.IH) (simp add: validCourses_def)
  next
    assume "isMalformed l"
    then show ?thesis
      using not_valid_malformed [of l]
      by (simp only: loadLoop_malformed Cons.IH) (simp add: validCourses_def)
  next
    assume "isValid l"
    then show ?thesis
      by (simp only: loadLoop_valid Cons.IH) (simp add: validCourses_def)
  qed
qed


lemma loadLoop_index:
  "ls_index (loadLoop lines st) = indexOf (validCourses lines) (ls_index st)"
  by (induction lines arbitrary: st)
    (auto simp: Let_def validCourses_def isValid_def rowCourse_def indexOf_def)

lemma loadLoop_loaded:
  "loaded (loadLoop lines st) = loaded st + length (filter isValid lines)"
  by (induction lines arbitrary: st) (auto simp: Let_def isValid_def)

lemma loadLoop_skipped:
  "skipped (loadLoop lines st) = skipped st + length (filter isMalformed lines)"
  by (induction lines arbitrary: st) (auto simp: Let_def isMalformed_def)

lemma loadLoop_warnings:
  "warnings (loadLoop lines st) =
     warnings st @ map (\<lambda>i. lineNum st + i) (warningLines lines)"
proof (induction lines arbitrary: st)
  case Nil
  show ?case by (simp add: warningLines_def)
next
  case (Cons l ls)
  have shift: "warningLines (l # ls) =
      (if isMalformed l then [1] else []) @ map Suc (warningLines ls)"
    by (simp add: warningLines_def upt_conv_Cons map_Suc_upt [symmetric] filter_map comp_def
        del: upt_Suc)
  show ?case
    by (simp add: Let_def Cons.IH shift isMalformed_def comp_def)
qed

lemma loadFromFile_Some:
  "loadFromFile p filename (Some lines) =
     (let p1 = p\<lparr>tree_f := foldl insertOrAssign (clearAll (tree_f p)) (validCourses lines),
                   index_f := indexOf (validCourses lines) Map.empty\<rparr>
      in if validCourses lines = [] then (p1, warningLines lines, Inl NoValidRecords)
         else (p1\<lparr>loaded_f := True, lastFilename_f := filename\<rparr>, warningLines lines,
               Inr (length (validCourses lines), length (filter isMalformed lines))))"
  by (simp add: loadFromFile_def Let_def loadLoop_tree loadLoop_index loadLoop_loaded
      loadLoop_skipped loadLoop_warnings validCourses_def)


section \<open>The planner after a load\<close>

lemma inOrder_keys: "number ` set (inOrder t) = keys (root_f t)"
  by (simp add: inOrder_def keys_def)

lemma wf_sorted: "wf_tree t \<Longrightarrow> sorted_wrt (<) (map number (inOrder t))"
  by (simp add: wf_tree_def inOrder_def bst_sorted)

lemma wf_distinct: "wf_tree t \<Longrightarrow> distinct (map number (inOrder t))"
  using wf_sorted [of t] by (simp add: strict_sorted_iff)

lemma wf_size: "wf_tree t \<Longrightarrow> size_bst t = length (inOrder t)"
  by (simp add: wf_tree_def inOrder_def size_bst_def)

lemma wf_find_iff:
  "wf_tree t \<Longrightarrow> find_bst t num = Some c \<longleftrightarrow> c \<in> set (inOrder t) \<and> number c = num"
  by (simp add: wf_tree_def inOrder_def find_bst_def find_loop_iff)

lemma wf_find_None: "wf_tree t \<Longrightarrow> find_bst t num = None \<longleftrightarrow> num \<notin> number ` set (inOrder t)"
  by (simp add: wf_tree_def find_bst_def find_loop_None inOrder_keys)

lemma filter_key_single:
  "distinct (map f xs) \<Longrightarrow> x \<in> set xs \<Longrightarrow> filter (\<lambda>y. f y = f x) xs = [x]"
proof (induction xs)
  case Nil
  then show ?case by simp
next
  case (Cons a xs)
  show ?case
  proof (cases "a = x")
    case True
    from Cons.prems(1) have "f a \<notin> f ` set xs" by simp
    with True have "\<forall>y\<in>set xs. f y \<noteq> f x" by (metis imageI)
    then have "filter (\<lambda>y. f y = f x) xs = []" by (simp add: filter_empty_conv)
    with True show ?thesis by simp
  next
    case False
    with Cons.prems have "x \<in> set xs" and "f a \<noteq> f x" by auto
    with Cons show ?thesis by simp
  qed
qed

lemma find_last_append:
  "find P (rev (xs @ ys)) = (case find P (rev ys) of Some y \<Rightarrow> Some y | None \<Rightarrow> find P (rev xs))"
  by (induction ys rule: rev_induct) (simp_all flip: append_assoc)

lemma load_Some_tree:
  "loadFromFile p filename (Some lines) = (p', w, res) \<Longrightarrow>
     tree_f p' = foldl insertOrAssign (clearAll (tree_f p)) (validCourses lines)"
  by (auto simp: loadFromFile_Some Let_def split: if_splits)

lemma load_Some_index:
  "loadFromFile p filename (Some lines) = (p', w, res) \<Longrightarrow>
     index_f p' = indexOf (validCourses lines) Map.empty"
  by (auto simp: loadFromFile_Some Let_def split: if_splits)

lemma load_Some_result:
  "loadFromFile p filename (Some lines) = (p', w, res) \<Longrightarrow>
     res = (if validCourses lines = [] then Inl NoValidRecords
            else Inr (length (validCourses lines), length (filter isMalformed lines)))"
  by (auto simp: loadFromFile_Some Let_def split: if_splits)

lemma load_Some_warnings:
  "loadFromFile p filename (Some lines) = (p', w, res) \<Longrightarrow> w = warningLines lines"
  by (auto simp: loadFromFile_Some Let_def split: if_splits)

lemma load_Some_loaded:
  "loadFromFile p filename (Some lines) = (p', w, res) \<Longrightarrow>
     loaded_f p' = (loaded_f p \<or> validCourses lines \<noteq> [])"
  by (auto simp: loadFromFile_Some Let_def split: if_splits)

lemma load_Some_wf:
  "loadFromFile p filename (Some lines) = (p', w, res) \<Longrightarrow> wf_tree (tree_f p')"
  by (simp add: load_Some_tree wf_tree_foldl wf_tree_clearAll)

lemma load_Some_keys:
  "loadFromFile p filename (Some lines) = (p', w, res) \<Longrightarrow>
     number ` set (inOrder (tree_f p')) = number ` set (validCourses lines)"
  by (simp add: load_Some_tree inOrder_keys keys_foldl clearAll_def)

lemma load_Some_find:
  "loadFromFile p filename (Some lines) = (p', w, res) \<Longrightarrow>
     find_bst (tree_f p') num = find (\<lambda>c. number c = num) (rev (validCourses lines))"
proof -
  assume "loadFromFile p filename (Some lines) = (p', w, res)"
  then have "tree_f p' = foldl insertOrAssign (clearAll (tree_f p)) (validCourses lines)"
    by (rule load_Some_tree)
  moreover have "find_bst (clearAll (tree_f p)) num = None"
    by (simp add: find_bst_def clearAll_def)
  ultimately show ?thesis
    by (simp add: find_foldl split: option.splits)
qed

lemma load_Some_index_apply:
  "loadFromFile p filename (Some lines) = (p', w, res) \<Longrightarrow>
     index_f p' num = map_option title (find_bst (tree_f p') num)"
  by (simp add: load_Some_find load_Some_index indexOf_apply split: option.splits)

lemma validCourses_append: "validCourses (xs @ ys) = validCourses xs @ validCourses ys"
  by (simp add: validCourses_def)

lemma validCourses_Cons:
  "validCourses (l # ls) = (if isValid l then rowCourse l # validCourses ls else validCourses ls)"
  by (simp add: validCourses_def)

lemma rowCourse_number_normal:
  assumes "isValid l"
  shows "toUpperInPlace (trimCopy (number (rowCourse l))) = number (rowCourse l)"
proof -
  define parts where "parts = splitCSV (trimCopy l)"
  from assms have "\<not> length parts < 2" by (simp add: isValid_def parts_def)
  then have "0 < length parts" by arith
  then have "parts ! 0 \<in> set parts" by (rule nth_mem)
  then have "trimCopy (parts ! 0) = parts ! 0"
    unfolding parts_def splitCSV_def by (rule splitCSV_loop_trimmed)
  moreover have "number (rowCourse l) = toUpperInPlace (parts ! 0)"
    by (simp add: rowCourse_def makeCourse_def parts_def)
  ultimately show ?thesis by (simp add: trimCopy_toUpperInPlace)
qed

lemma example_load:
  "loadFromFile CoursePlanner_init ''courses.csv'' (Some example_rows) =
     (example_planner, [], Inr (3, 0))"
proof -
  have "snd (loadFromFile CoursePlanner_init ''courses.csv'' (Some example_rows)) = ([], Inr (3, 0))"
    by code_simp
  then show ?thesis
    by (simp add: example_planner_def prod_eq_iff)
qed

lemma example_reload_result:
  "snd (loadFromFile example_planner ''broken.csv'' (Some [''X1'', ''''])) =
     ([1], Inl NoValidRecords)"
  by code_simp

lemma example_reload_fails:
  "loadFromFile example_planner ''broken.csv'' (Some [''X1'', '''']) =
     (fst (loadFromFile example_planner ''broken.csv'' (Some [''X1'', ''''])), [1], Inl NoValidRecords)"
  using example_reload_result by (simp add: prod_eq_iff)

lemma find_Some_mem: "find P xs = Some x \<Longrightarrow> x \<in> set xs"
  by (induction xs) (auto split: if_splits)



lemma runLoads_loaded:
  "runLoads p calls = (p', ok) \<Longrightarrow> loaded_f p' = (loaded_f p \<or> ok)"
proof (induction calls arbitrary: p p' ok)
  case Nil
  then show ?case by simp
next
  case (Cons call calls)
  obtain filename src where call: "call = (filename, src)" by (cases call)
  obtain p1 w res where step: "loadFromFile p filename src = (p1, w, res)"
    by (cases "loadFromFile p filename src")
  obtain p2 ok2 where rest: "runLoads p1 calls = (p2, ok2)"
    by (cases "runLoads p1 calls")
  from Cons.prems call step rest have eq: "p' = p2" "ok = (ok2 \<or> \<not> isl res)"
    by simp_all
  from Cons.IH [OF rest] have ih: "loaded_f p2 = (loaded_f p1 \<or> ok2)" .
  have "loaded_f p1 = (loaded_f p \<or> \<not> isl res)"
  proof (cases src)
    case None
    with step show ?thesis by (auto simp: loadFromFile_def)
  next
    case (Some lines)
    with step have s: "loadFromFile p filename (Some lines) = (p1, w, res)" by simp
    from load_Some_loaded [OF s] load_Some_result [OF s] show ?thesis
      by (auto split: if_splits)
  qed
  with ih eq show ?case by auto
qed

section \<open>The claims\<close>

text \<open>
  Claim C1. After a successful load of any file, the listing prints the courses of the
  in-order traversal and their number as the total; the course numbers visited are
  strictly ascending, no two visited entries share a number, the numbers visited are
  those of the rows loaded, and the traversal visits exactly the courses that
  \<^verbatim>\<open>find\<close> can reach, each under its own number.
\<close>

theorem listing_sorted_after_load:
  assumes "loadFromFile p filename (Some lines) = (p', w, Inr stats)"
  shows "printCourseList p' =
           Inr (map (\<lambda>c. (number c, title c)) (inOrder (tree_f p')), size_bst (tree_f p'))
       \<and> sorted_wrt (<) (map number (inOrder (tree_f p')))
       \<and> distinct (map number (inOrder (tree_f p')))
       \<and> set (map number (inOrder (tree_f p'))) = number ` set (validCourses lines)
       \<and> (\<forall>num c. find_bst (tree_f p') num = Some c
             \<longleftrightarrow> c \<in> set (inOrder (tree_f p')) \<and> number c = num)"
proof -
  note wf = load_Some_wf [OF assms]
  from load_Some_result [OF assms] have "validCourses lines \<noteq> []"
    by (auto split: if_splits)
  with load_Some_loaded [OF assms] have "loaded_f p'" by simp
  then have "printCourseList p' =
      Inr (map (\<lambda>c. (number c, title c)) (inOrder (tree_f p')), size_bst (tree_f p'))"
    by (simp add: printCourseList_def Let_def wf_size [OF wf])
  moreover have "sorted_wrt (<) (map number (inOrder (tree_f p')))"
    using wf by (rule wf_sorted)
  moreover have "distinct (map number (inOrder (tree_f p')))"
    using wf by (rule wf_distinct)
  moreover have "set (map number (inOrder (tree_f p'))) = number ` set (validCourses lines)"
    using load_Some_keys [OF assms] by simp
  moreover have "\<forall>num c. find_bst (tree_f p') num = Some c
      \<longleftrightarrow> c \<in> set (inOrder (tree_f p')) \<and> number c = num"
    using wf_find_iff [OF wf] by blast
  ultimately show ?thesis by blast
qed

theorem listing_sorted_after_load_witness:
  "printCourseList example_planner =
     Inr (map (\<lambda>c. (number c, title c)) (inOrder (tree_f example_planner)),
          size_bst (tree_f example_planner))
   \<and> sorted_wrt (<) (map number (inOrder (tree_f example_planner)))
   \<and> distinct (map number (inOrder (tree_f example_planner)))
   \<and> set (map number (inOrder (tree_f example_planner))) = number ` set (validCourses example_rows)
   \<and> (\<forall>num c. find_bst (tree_f example_planner) num = Some c
         \<longleftrightarrow> c \<in> set (inOrder (tree_f example_planner)) \<and> number c = num)"
  by (rule listing_sorted_after_load [OF example_load])

text \<open>
  Claim C2 says that every failing load destroys what an earlier load stored, also when
  the file cannot be opened. \<^verbatim>\<open>loadFromFile\<close> tests \<^verbatim>\<open>is_open\<close> and returns before it
  clears anything: after the sample file has been loaded, a load of a file that cannot be
  opened fails and the three courses and the index are still there.
\<close>

theorem open_failure_keeps_data_counterexample:
  "snd (snd (loadFromFile CoursePlanner_init ''courses.csv'' (Some example_rows))) = Inr (3, 0)
   \<and> snd (snd (loadFromFile example_planner ''missing.csv'' None)) = Inl (CouldNotOpen ''missing.csv'')
   \<and> map number (inOrder (tree_f (fst (loadFromFile example_planner ''missing.csv'' None))))
       = [''CSCI100'', ''CSCI200'', ''MATH201'']
   \<and> index_f (fst (loadFromFile example_planner ''missing.csv'' None)) ''CSCI200''
       = Some ''Data Structures''"
  unfolding example_planner_def by code_simp

text \<open>
  Claim C2, as the program has it. A load that fails because the file cannot be opened
  reports that error and leaves the planner as it was. A load that fails on a file that
  was opened fails because no row was loaded, and then the tree and the index are empty,
  whatever an earlier load had stored: they are cleared before the rows are read.
\<close>

theorem failed_load_effect:
  assumes "loadFromFile p filename file = (p', w, Inl e)"
  shows "(file = None \<longrightarrow> e = CouldNotOpen filename \<and> p' = p)
       \<and> (file \<noteq> None \<longrightarrow>
            e = NoValidRecords \<and> inOrder (tree_f p') = [] \<and> size_bst (tree_f p') = 0
            \<and> index_f p' = Map.empty)"
proof (cases "file")
  case None
  with assms show ?thesis by (simp add: loadFromFile_def)
next
  case (Some lines)
  with assms have ld: "loadFromFile p filename (Some lines) = (p', w, Inl e)" by simp
  from load_Some_result [OF ld] have e: "e = NoValidRecords" and cs: "validCourses lines = []"
    by (auto split: if_splits)
  from load_Some_tree [OF ld] cs have "tree_f p' = clearAll (tree_f p)" by simp
  then have "inOrder (tree_f p') = []" and "size_bst (tree_f p') = 0"
    by (simp_all add: inOrder_def size_bst_def clearAll_def)
  moreover from load_Some_index [OF ld] cs have "index_f p' = Map.empty"
    by (simp add: indexOf_def)
  ultimately show ?thesis using e Some by simp
qed

theorem failed_load_effect_witness:
  "snd (snd (loadFromFile example_planner ''broken.csv'' (Some [''X1'', '''']))) = Inl NoValidRecords
   \<and> inOrder (tree_f (fst (loadFromFile example_planner ''broken.csv'' (Some [''X1'', ''''])))) = []
   \<and> size_bst (tree_f (fst (loadFromFile example_planner ''broken.csv'' (Some [''X1'', ''''])))) = 0
   \<and> index_f (fst (loadFromFile example_planner ''broken.csv'' (Some [''X1'', '''']))) = Map.empty"
proof -
  have "snd (snd (loadFromFile example_planner ''broken.csv'' (Some [''X1'', '''']))) = Inl NoValidRecords"
    by (simp only: example_reload_result snd_conv)
  moreover have "Some [''X1'', ''''] \<noteq> (None :: string list option)" by simp
  with failed_load_effect [OF example_reload_fails]
  have "inOrder (tree_f (fst (loadFromFile example_planner ''broken.csv'' (Some [''X1'', ''''])))) = []
      \<and> size_bst (tree_f (fst (loadFromFile example_planner ''broken.csv'' (Some [''X1'', ''''])))) = 0
      \<and> index_f (fst (loadFromFile example_planner ''broken.csv'' (Some [''X1'', '''']))) = Map.empty"
    by blast
  ultimately show ?thesis by (rule conjI)
qed

text \<open>
  Claim C3 says that a load that loads no course leaves the planner unloaded even after
  an earlier successful load. \<^verbatim>\<open>loaded_\<close> is only ever set to \<^verbatim>\<open>true\<close>: after the sample
  file has been loaded, a load of a file without a loadable row fails with
  \<open>NoValidRecords\<close>, and the planner still counts as loaded; the listing is the empty
  list with total 0 and a look-up answers \<open>NotFound\<close>, neither answers \<open>NotLoaded\<close>.
\<close>

theorem failed_reload_stays_loaded_counterexample:
  "snd (snd (loadFromFile CoursePlanner_init ''courses.csv'' (Some example_rows))) = Inr (3, 0)
   \<and> snd (snd (loadFromFile example_planner ''broken.csv'' (Some [''X1'', '''']))) = Inl NoValidRecords
   \<and> isLoaded (fst (loadFromFile example_planner ''broken.csv'' (Some [''X1'', ''''])))
   \<and> printCourseList (fst (loadFromFile example_planner ''broken.csv'' (Some [''X1'', ''''])))
       = Inr ([], 0)
   \<and> printCourseInfo (fst (loadFromFile example_planner ''broken.csv'' (Some [''X1'', '''']))) ''CSCI100''
       = Inl (NotFound ''CSCI100'')"
  unfolding example_planner_def by code_simp

text \<open>
  Claim C3, as the program has it. A load that reads all rows of an opened file and loads
  no course fails with \<open>NoValidRecords\<close> and leaves the tree and the index empty; the
  loaded flag keeps the value it had before the call. A planner that was never loaded
  stays unloaded, and the listing and every description answer \<open>NotLoaded\<close>. A planner
  that was loaded stays loaded: its listing is the empty list with total 0, and a
  description answers \<open>EmptyQueryKey\<close> for a query that normalizes to the empty string
  and \<open>NotFound\<close> with the normalized number for every other query.
\<close>

theorem no_valid_records_effect:
  assumes "loadFromFile p filename (Some lines) = (p', w, res)"
    and "filter isValid lines = []"
  shows "res = Inl NoValidRecords
       \<and> inOrder (tree_f p') = [] \<and> size_bst (tree_f p') = 0 \<and> index_f p' = Map.empty
       \<and> isLoaded p' = isLoaded p
       \<and> printCourseList p' = (if isLoaded p then Inr ([], 0) else Inl NotLoaded)
       \<and> printCourseInfo p' q =
           Inl (if \<not> isLoaded p then NotLoaded
                else if toUpperInPlace (trimCopy q) = [] then EmptyQueryKey
                else NotFound (toUpperInPlace (trimCopy q)))"
proof -
  from assms(2) have cs: "validCourses lines = []" by (simp add: validCourses_def)
  with load_Some_result [OF assms(1)] have res: "res = Inl NoValidRecords" by simp
  from load_Some_tree [OF assms(1)] cs have tree: "tree_f p' = clearAll (tree_f p)" by simp
  then have t: "inOrder (tree_f p') = []" "size_bst (tree_f p') = 0"
    by (simp_all add: inOrder_def size_bst_def clearAll_def)
  from load_Some_index [OF assms(1)] cs have i: "index_f p' = Map.empty"
    by (simp add: indexOf_def)
  from load_Some_loaded [OF assms(1)] cs have l: "loaded_f p' = loaded_f p" by simp
  have "printCourseList p' = (if isLoaded p then Inr ([], 0) else Inl NotLoaded)"
    by (simp add: printCourseList_def isLoaded_def l t Let_def)
  moreover have "printCourseInfo p' q =
      Inl (if \<not> isLoaded p then NotLoaded
           else if toUpperInPlace (trimCopy q) = [] then EmptyQueryKey
           else NotFound (toUpperInPlace (trimCopy q)))"
    by (simp add: printCourseInfo_def isLoaded_def l tree find_bst_def clearAll_def Let_def)
  ultimately show ?thesis using res t i l by (simp add: isLoaded_def)
qed

theorem no_valid_records_effect_witness:
  "isLoaded example_planner
   \<and> snd (snd (loadFromFile example_planner ''broken.csv'' (Some [''X1'', '''']))) = Inl NoValidRecords
   \<and> inOrder (tree_f (fst (loadFromFile example_planner ''broken.csv'' (Some [''X1'', ''''])))) = []
   \<and> index_f (fst (loadFromFile example_planner ''broken.csv'' (Some [''X1'', '''']))) = Map.empty
   \<and> isLoaded (fst (loadFromFile example_planner ''broken.csv'' (Some [''X1'', ''''])))
   \<and> printCourseList (fst (loadFromFile example_planner ''broken.csv'' (Some [''X1'', ''''])))
       = Inr ([], 0)
   \<and> printCourseInfo (fst (loadFromFile example_planner ''broken.csv'' (Some [''X1'', '''']))) ''csci100''
       = Inl (NotFound ''CSCI100'')
   \<and> printCourseInfo (fst (loadFromFile example_planner ''broken.csv'' (Some [''X1'', '''']))) ''  ''
       = Inl EmptyQueryKey
   \<and> \<not> isLoaded (fst (loadFromFile CoursePlanner_init ''broken.csv'' (Some [''X1'', ''''])))
   \<and> printCourseList (fst (loadFromFile CoursePlanner_init ''broken.csv'' (Some [''X1'', ''''])))
       = Inl NotLoaded
   \<and> printCourseInfo (fst (loadFromFile CoursePlanner_init ''broken.csv'' (Some [''X1'', '''']))) ''csci100''
       = Inl NotLoaded"
proof -
  let ?again = "fst (loadFromFile example_planner ''broken.csv'' (Some [''X1'', '''']))"
  let ?never = "fst (loadFromFile CoursePlanner_init ''broken.csv'' (Some [''X1'', '''']))"
  have none: "filter isValid [''X1'', ''''] = []" by code_simp
  have was: "isLoaded example_planner"
    unfolding example_planner_def by code_simp
  have new: "\<not> isLoaded CoursePlanner_init"
    by (simp add: isLoaded_def CoursePlanner_init_def)
  have key: "toUpperInPlace (trimCopy ''csci100'') = ''CSCI100''" by code_simp
  have blank: "toUpperInPlace (trimCopy ''  '') = []" by code_simp
  have first: "loadFromFile CoursePlanner_init ''broken.csv'' (Some [''X1'', '''']) =
      (?never, fst (snd (loadFromFile CoursePlanner_init ''broken.csv'' (Some [''X1'', '''']))),
       snd (snd (loadFromFile CoursePlanner_init ''broken.csv'' (Some [''X1'', '''']))))"
    by simp
  have res: "snd (snd (loadFromFile example_planner ''broken.csv'' (Some [''X1'', '''']))) =
      Inl NoValidRecords"
    by (simp only: example_reload_result snd_conv)
  note again = no_valid_records_effect [OF example_reload_fails none, of "''csci100''", unfolded key]
  note again_blank = no_valid_records_effect [OF example_reload_fails none, of "''  ''", unfolded blank]
  note never = no_valid_records_effect [OF first none, of "''csci100''", unfolded key]
  from again have a1: "inOrder (tree_f ?again) = []" and a2: "index_f ?again = Map.empty"
    and a3: "isLoaded ?again = isLoaded example_planner"
    and a4: "printCourseList ?again = (if isLoaded example_planner then Inr ([], 0) else Inl NotLoaded)"
    and a5: "printCourseInfo ?again ''csci100'' =
      Inl (if \<not> isLoaded example_planner then NotLoaded
           else if ''CSCI100'' = [] then EmptyQueryKey else NotFound ''CSCI100'')"
    by blast+
  from again_blank have a6: "printCourseInfo ?again ''  '' =
      Inl (if \<not> isLoaded example_planner then NotLoaded
           else if ([] :: string) = [] then EmptyQueryKey else NotFound [])"
    by blast
  from never have n1: "isLoaded ?never = isLoaded CoursePlanner_init"
    and n2: "printCourseList ?never = (if isLoaded CoursePlanner_init then Inr ([], 0) else Inl NotLoaded)"
    and n3: "printCourseInfo ?never ''csci100'' =
      Inl (if \<not> isLoaded CoursePlanner_init then NotLoaded
           else if ''CSCI100'' = [] then EmptyQueryKey else NotFound ''CSCI100'')"
    by blast+
  from a3 was have a3': "isLoaded ?again" by simp
  from a4 was have a4': "printCourseList ?again = Inr ([], 0)" by simp
  from a5 was have a5': "printCourseInfo ?again ''csci100'' = Inl (NotFound ''CSCI100'')" by simp
  from a6 was have a6': "printCourseInfo ?again ''  '' = Inl EmptyQueryKey" by simp
  from n1 new have n1': "\<not> isLoaded ?never" by simp
  from n2 new have n2': "printCourseList ?never = Inl NotLoaded" by simp
  from n3 new have n3': "printCourseInfo ?never ''csci100'' = Inl NotLoaded" by simp
  from was res a1 a2 a3' a4' a5' a6' n1' n2' n3' show ?thesis by blast
qed

text \<open>
  Claim C4 says that of every two rows with the same normalized course number the later
  one gives the stored title and prerequisites. The last row with the number does: in a
  file of three rows with the number \<^verbatim>\<open>A\<close>, the first and the second row are such a
  pair, and after the load the course stored under \<^verbatim>\<open>A\<close> has the title and the (empty)
  prerequisites of the third row, not those of the second.
\<close>

theorem third_row_wins_counterexample:
  "isValid ''A,one'' \<and> isValid ''A,two,B''
   \<and> number (rowCourse ''A,one'') = number (rowCourse ''A,two,B'')
   \<and> title (rowCourse ''A,two,B'') = ''two'' \<and> prereqs (rowCourse ''A,two,B'') = [''B'']
   \<and> snd (snd (loadFromFile CoursePlanner_init ''courses.csv''
               (Some [''A,one'', ''A,two,B'', ''A,three'']))) = Inr (3, 0)
   \<and> find_bst (tree_f (fst (loadFromFile CoursePlanner_init ''courses.csv''
                 (Some [''A,one'', ''A,two,B'', ''A,three'']))))
        (number (rowCourse ''A,one''))
       = Some \<lparr>number = ''A'', title = ''three'', prereqs = []\<rparr>"
  by code_simp

text \<open>
  Claim C4, as the program has it. Let two rows of one file be loaded under the same
  normalized course number, and let no loaded row after the second of them carry that
  number. After the load \<^verbatim>\<open>find\<close> returns for that number a course with that number
  and with the title and the prerequisites of the later row, and the traversal visits
  exactly one course with that number.
\<close>

theorem later_row_wins:
  assumes "loadFromFile p filename (Some (xs @ r1 # ys @ r2 # zs)) = (p', w, res)"
    and "isValid r1" and "isValid r2"
    and "number (rowCourse r1) = number (rowCourse r2)"
    and "\<forall>r\<in>set zs. isValid r \<longrightarrow> number (rowCourse r) \<noteq> number (rowCourse r2)"
  shows "\<exists>c. find_bst (tree_f p') (number (rowCourse r1)) = Some c
           \<and> number c = number (rowCourse r1)
           \<and> title c = title (rowCourse r2) \<and> prereqs c = prereqs (rowCourse r2)
           \<and> filter (\<lambda>d. number d = number (rowCourse r1)) (inOrder (tree_f p')) = [c]"
proof -
  let ?k = "number (rowCourse r2)"
  let ?P = "\<lambda>c. number c = ?k"
  note wf = load_Some_wf [OF assms(1)]
  have split: "validCourses (xs @ r1 # ys @ r2 # zs) =
      (validCourses (xs @ r1 # ys) @ [rowCourse r2]) @ validCourses zs"
    using assms(3) by (simp add: validCourses_append validCourses_Cons)
  have "\<forall>c\<in>set (validCourses zs). number c \<noteq> ?k"
    using assms(5) by (auto simp: validCourses_def)
  then have none: "find ?P (rev (validCourses zs)) = None"
    by (simp add: find_None_iff)
  have "find ?P (rev (validCourses (xs @ r1 # ys @ r2 # zs))) = Some (rowCourse r2)"
    unfolding split find_last_append [of ?P _ "validCourses zs"] none by simp
  then have found: "find_bst (tree_f p') ?k = Some (rowCourse r2)"
    by (simp add: load_Some_find [OF assms(1)])
  then have "rowCourse r2 \<in> set (inOrder (tree_f p'))"
    by (simp add: wf_find_iff [OF wf])
  with wf_distinct [OF wf]
  have "filter (\<lambda>d. number d = ?k) (inOrder (tree_f p')) = [rowCourse r2]"
    by (rule filter_key_single)
  with found assms(4) show ?thesis by simp
qed

theorem later_row_wins_witness:
  "\<exists>c. find_bst (tree_f duplicate_planner) (number (rowCourse ''csci100,Old title,MATH101'')) = Some c
       \<and> number c = number (rowCourse ''csci100,Old title,MATH101'')
       \<and> title c = title (rowCourse ''CSCI100,New title'')
       \<and> prereqs c = prereqs (rowCourse ''CSCI100,New title'')
       \<and> filter (\<lambda>d. number d = number (rowCourse ''csci100,Old title,MATH101''))
            (inOrder (tree_f duplicate_planner)) = [c]"
proof -
  obtain w res where "snd (loadFromFile CoursePlanner_init ''courses.csv''
      (Some ([''MATH101,Algebra''] @ ''csci100,Old title,MATH101'' # [''X1''] @
             ''CSCI100,New title'' # [''CSCI200,Data Structures,CSCI100'']))) = (w, res)"
    by (rule prod.exhaust)
  then have a: "loadFromFile CoursePlanner_init ''courses.csv''
      (Some ([''MATH101,Algebra''] @ ''csci100,Old title,MATH101'' # [''X1''] @
             ''CSCI100,New title'' # [''CSCI200,Data Structures,CSCI100''])) =
      (duplicate_planner, w, res)"
    by (simp add: duplicate_planner_def prod_eq_iff)
  have b: "isValid ''csci100,Old title,MATH101''" by code_simp
  have c: "isValid ''CSCI100,New title''" by code_simp
  have d: "number (rowCourse ''csci100,Old title,MATH101'') = number (rowCourse ''CSCI100,New title'')"
    by code_simp
  have e: "\<forall>r\<in>set [''CSCI200,Data Structures,CSCI100''].
      isValid r \<longrightarrow> number (rowCourse r) \<noteq> number (rowCourse ''CSCI100,New title'')"
    by code_simp
  from a b c d e show ?thesis by (rule later_row_wins)
qed




text \<open>
  Claim C6 says that the description reports the prerequisites of every loaded course. A
  row whose first field is empty is loaded under the empty course number, and
  \<^verbatim>\<open>printCourseInfo\<close> answers \<open>EmptyQueryKey\<close> for every query that normalizes to the
  empty number, before it looks the course up: the course and its prerequisite
  \<^verbatim>\<open>A1\<close> are stored and found by \<^verbatim>\<open>find\<close>, and the description of that number
  reports neither.
\<close>

theorem empty_number_counterexample:
  "snd (snd (loadFromFile CoursePlanner_init ''courses.csv'' (Some ['',No number,a1'']))) = Inr (1, 0)
   \<and> inOrder (tree_f (fst (loadFromFile CoursePlanner_init ''courses.csv'' (Some ['',No number,a1'']))))
       = [\<lparr>number = [], title = ''No number'', prereqs = [''A1'']\<rparr>]
   \<and> find_bst (tree_f (fst (loadFromFile CoursePlanner_init ''courses.csv'' (Some ['',No number,a1'']))))
        [] = Some \<lparr>number = [], title = ''No number'', prereqs = [''A1'']\<rparr>
   \<and> printCourseInfo (fst (loadFromFile CoursePlanner_init ''courses.csv'' (Some ['',No number,a1''])))
        [] = Inl EmptyQueryKey
   \<and> printCourseInfo (fst (loadFromFile CoursePlanner_init ''courses.csv'' (Some ['',No number,a1''])))
        ''  '' = Inl EmptyQueryKey"
  by code_simp

text \<open>
  Claim C6, as the program has it. After a successful load, let a stored course have a
  number that is not empty, and let a query normalize to that number (the number itself
  is such a query). The description has the course's number and title; when the course
  has no prerequisite it says so with \<open>PrereqsNone\<close>, and otherwise it has one line for
  each prerequisite number, in the stored order: the number with its title where the
  index has one, and the number marked \<open>TitleNotFound\<close> where it has none. The call
  never fails on a prerequisite.
\<close>

theorem describe_reports_prereqs:
  assumes "loadFromFile p filename (Some lines) = (p', w, Inr stats)"
    and "c \<in> set (inOrder (tree_f p'))" and "number c \<noteq> []"
    and "toUpperInPlace (trimCopy q) = number c"
  shows "printCourseInfo p' q =
           Inr (CourseInfo (number c) (title c)
                  (if prereqs c = [] then PrereqsNone
                   else PrereqLines
                          (map (\<lambda>pn. case index_f p' pn of
                                        Some t \<Rightarrow> Resolved pn t
                                      | None \<Rightarrow> TitleNotFound pn) (prereqs c))))
       \<and> toUpperInPlace (trimCopy (number c)) = number c"
proof -
  note wf = load_Some_wf [OF assms(1)]
  from load_Some_result [OF assms(1)] have "validCourses lines \<noteq> []"
    by (auto split: if_splits)
  with load_Some_loaded [OF assms(1)] have ld: "loaded_f p'" by simp
  from assms(2) have found: "find_bst (tree_f p') (number c) = Some c"
    by (simp add: wf_find_iff [OF wf])
  have line: "prereqLine (index_f p') =
      (\<lambda>pn. case index_f p' pn of Some t \<Rightarrow> Resolved pn t | None \<Rightarrow> TitleNotFound pn)"
    by (rule ext) (simp add: prereqLine_def)
  from ld assms(3,4) found have first: "printCourseInfo p' q =
      Inr (CourseInfo (number c) (title c)
             (if prereqs c = [] then PrereqsNone
              else PrereqLines
                     (map (\<lambda>pn. case index_f p' pn of
                                   Some t \<Rightarrow> Resolved pn t
                                 | None \<Rightarrow> TitleNotFound pn) (prereqs c))))"
    by (simp add: printCourseInfo_def Let_def line)
  from found have "find (\<lambda>d. number d = number c) (rev (validCourses lines)) = Some c"
    by (simp add: load_Some_find [OF assms(1)])
  then have "c \<in> set (rev (validCourses lines))"
    by (rule find_Some_mem)
  then have "c \<in> set (validCourses lines)" by simp
  then obtain l where "isValid l" and "c = rowCourse l"
    by (auto simp: validCourses_def)
  then have "toUpperInPlace (trimCopy (number c)) = number c"
    by (simp add: rowCourse_number_normal)
  with first show ?thesis by simp
qed

theorem describe_reports_prereqs_witness:
  "printCourseInfo example_planner ''math201'' =
     Inr (CourseInfo (number \<lparr>number = ''MATH201'', title = ''Discrete Mathematics'',
                              prereqs = [''MATH101'', ''CSCI100'']\<rparr>)
            (title \<lparr>number = ''MATH201'', title = ''Discrete Mathematics'',
                     prereqs = [''MATH101'', ''CSCI100'']\<rparr>)
            (if prereqs \<lparr>number = ''MATH201'', title = ''Discrete Mathematics'',
                         prereqs = [''MATH101'', ''CSCI100'']\<rparr> = [] then PrereqsNone
             else PrereqLines
                    (map (\<lambda>pn. case index_f example_planner pn of
                                  Some t \<Rightarrow> Resolved pn t
                                | None \<Rightarrow> TitleNotFound pn)
                       (prereqs \<lparr>number = ''MATH201'', title = ''Discrete Mathematics'',
                                 prereqs = [''MATH101'', ''CSCI100'']\<rparr>))))
   \<and> toUpperInPlace (trimCopy (number \<lparr>number = ''MATH201'', title = ''Discrete Mathematics'',
                                         prereqs = [''MATH101'', ''CSCI100'']\<rparr>))
       = number \<lparr>number = ''MATH201'', title = ''Discrete Mathematics'',
                 prereqs = [''MATH101'', ''CSCI100'']\<rparr>"
proof -
  have a: "\<lparr>number = ''MATH201'', title = ''Discrete Mathematics'',
            prereqs = [''MATH101'', ''CSCI100'']\<rparr> \<in> set (inOrder (tree_f example_planner))"
    unfolding example_planner_def by code_simp
  have b: "number \<lparr>number = ''MATH201'', title = ''Discrete Mathematics'',
                   prereqs = [''MATH101'', ''CSCI100'']\<rparr> \<noteq> []"
    by simp
  have c: "toUpperInPlace (trimCopy ''math201'') =
      number \<lparr>number = ''MATH201'', title = ''Discrete Mathematics'',
              prereqs = [''MATH101'', ''CSCI100'']\<rparr>"
    by code_simp
  from example_load a b c show ?thesis by (rule describe_reports_prereqs)
qed

text \<open>
  Claim C7. After any sequence of loads on a new planner, a description whose query
  normalizes to the empty string answers \<open>NotLoaded\<close> when none of the loads succeeded
  and \<open>EmptyQueryKey\<close> when one of them did: the loaded flag is tested first.
\<close>

theorem blank_query_outcome:
  assumes "runLoads CoursePlanner_init calls = (p, anySuccess)"
    and "toUpperInPlace (trimCopy q) = []"
  shows "printCourseInfo p q = Inl (if anySuccess then EmptyQueryKey else NotLoaded)"
proof -
  from runLoads_loaded [OF assms(1)] have "loaded_f p = anySuccess"
    by (simp add: CoursePlanner_init_def)
  with assms(2) show ?thesis
    by (simp add: printCourseInfo_def Let_def)
qed

theorem blank_query_outcome_witness:
  "printCourseInfo (fst (runLoads CoursePlanner_init
       [(''missing.csv'', None), (''broken.csv'', Some [''X1''])])) ''  ''
     = Inl (if False then EmptyQueryKey else NotLoaded)
   \<and> printCourseInfo (fst (runLoads CoursePlanner_init
       [(''missing.csv'', None), (''courses.csv'', Some example_rows), (''broken.csv'', Some [''X1''])])) ''  ''
     = Inl (if True then EmptyQueryKey else NotLoaded)"
proof -
  have q: "toUpperInPlace (trimCopy ''  '') = []" by code_simp
  have "snd (runLoads CoursePlanner_init
      [(''missing.csv'', None), (''broken.csv'', Some [''X1''])]) = False"
    by code_simp
  then have a: "runLoads CoursePlanner_init
      [(''missing.csv'', None), (''broken.csv'', Some [''X1''])] =
      (fst (runLoads CoursePlanner_init
         [(''missing.csv'', None), (''broken.csv'', Some [''X1''])]), False)"
    by (simp add: prod_eq_iff)
  have "snd (runLoads CoursePlanner_init
      [(''missing.csv'', None), (''courses.csv'', Some example_rows), (''broken.csv'', Some [''X1''])]) = True"
    by code_simp
  then have b: "runLoads CoursePlanner_init
      [(''missing.csv'', None), (''courses.csv'', Some example_rows), (''broken.csv'', Some [''X1''])] =
      (fst (runLoads CoursePlanner_init
         [(''missing.csv'', None), (''courses.csv'', Some example_rows), (''broken.csv'', Some [''X1''])]), True)"
    by (simp add: prod_eq_iff)
  from blank_query_outcome [OF a q] blank_query_outcome [OF b q] show ?thesis
    by (rule conjI)
qed

text \<open>
  Claim C8. A load of an opened file writes a warning for exactly the rows that are not
  empty after trimming and have fewer than two fields, each with the row's line number
  (counted from 1, blank rows included), in the order of the file. The skipped count of
  a successful load is the number of these rows and the loaded count the number of rows
  with two fields or more, so a blank row is in neither. The tree and the index hold
  every loadable row of the file, before or after a skipped one.
\<close>

theorem short_rows_skipped:
  assumes "loadFromFile p filename (Some lines) = (p', w, res)"
  shows "w = map Suc (filter (\<lambda>i. trimCopy (lines ! i) \<noteq> []
                                   \<and> length (splitCSV (trimCopy (lines ! i))) < 2)
                        [0..<length lines])
       \<and> res = (if filter isValid lines = [] then Inl NoValidRecords
                 else Inr (length (filter isValid lines), length (filter isMalformed lines)))
       \<and> tree_f p' = foldl insertOrAssign (clearAll (tree_f p)) (validCourses lines)
       \<and> index_f p' = indexOf (validCourses lines) Map.empty"
proof -
  have "w = warningLines lines"
    using assms by (rule load_Some_warnings)
  then have "w = map Suc (filter (\<lambda>i. trimCopy (lines ! i) \<noteq> []
      \<and> length (splitCSV (trimCopy (lines ! i))) < 2) [0..<length lines])"
    by (simp add: warningLines_def isMalformed_def)
  moreover have "res = (if filter isValid lines = [] then Inl NoValidRecords
      else Inr (length (filter isValid lines), length (filter isMalformed lines)))"
    using load_Some_result [OF assms] by (simp add: validCourses_def)
  moreover note load_Some_tree [OF assms] load_Some_index [OF assms]
  ultimately show ?thesis by simp
qed

theorem short_rows_skipped_witness:
  "[2, 5] = map Suc (filter (\<lambda>i. trimCopy (skipping_rows ! i) \<noteq> []
                                 \<and> length (splitCSV (trimCopy (skipping_rows ! i))) < 2)
                      [0..<length skipping_rows])
   \<and> Inr (2, 2) = (if filter isValid skipping_rows = [] then Inl NoValidRecords
                   else Inr (length (filter isValid skipping_rows),
                             length (filter isMalformed skipping_rows)))
   \<and> tree_f (fst (loadFromFile example_planner ''courses.csv'' (Some skipping_rows)))
       = foldl insertOrAssign (clearAll (tree_f example_planner)) (validCourses skipping_rows)
   \<and> index_f (fst (loadFromFile example_planner ''courses.csv'' (Some skipping_rows)))
       = indexOf (validCourses skipping_rows) Map.empty"
proof -
  have "snd (loadFromFile example_planner ''courses.csv'' (Some skipping_rows)) = ([2, 5], Inr (2, 2))"
    unfolding skipping_rows_def by code_simp
  then have "loadFromFile example_planner ''courses.csv'' (Some skipping_rows) =
      (fst (loadFromFile example_planner ''courses.csv'' (Some skipping_rows)), [2, 5], Inr (2, 2))"
    by (simp add: prod_eq_iff)
  then show ?thesis by (rule short_rows_skipped)
qed

text \<open>
  Claim C9. When every row of the file is loadable, \<^verbatim>\<open>size()\<close> after the load is the
  number of rows if their normalized course numbers are pairwise distinct, and less
  than the number of rows if two rows share a number.
\<close>

theorem size_counts_distinct_numbers:
  assumes "loadFromFile p filename (Some lines) = (p', w, res)"
    and "\<forall>l\<in>set lines. isValid l"
  shows "(distinct (map (\<lambda>l. number (rowCourse l)) lines) \<longrightarrow>
            size_bst (tree_f p') = length lines)
       \<and> (\<not> distinct (map (\<lambda>l. number (rowCourse l)) lines) \<longrightarrow>
            size_bst (tree_f p') < length lines)"
proof -
  let ?nums = "map (\<lambda>l. number (rowCourse l)) lines"
  note wf = load_Some_wf [OF assms(1)]
  from assms(2) have "validCourses lines = map rowCourse lines"
    by (simp add: validCourses_def)
  then have "number ` set (validCourses lines) = set ?nums" by auto
  with load_Some_keys [OF assms(1)]
  have keys: "set (map number (inOrder (tree_f p'))) = set ?nums" by simp
  have "size_bst (tree_f p') = length (map number (inOrder (tree_f p')))"
    by (simp add: wf_size [OF wf])
  also have "\<dots> = card (set (map number (inOrder (tree_f p'))))"
    using wf_distinct [OF wf] by (rule distinct_card [symmetric])
  finally have size: "size_bst (tree_f p') = card (set ?nums)"
    by (simp only: keys)
  have le: "card (set ?nums) \<le> length ?nums" by (rule card_length)
  have "size_bst (tree_f p') = length lines" if "distinct ?nums"
    using distinct_card [OF that] size by simp
  moreover have "size_bst (tree_f p') < length lines" if "\<not> distinct ?nums"
  proof -
    from that have "card (set ?nums) \<noteq> length ?nums"
      using card_distinct [of ?nums] by blast
    with le size show ?thesis by simp
  qed
  ultimately show ?thesis by blast
qed

theorem size_counts_distinct_numbers_witness:
  "size_bst (tree_f example_planner) = length example_rows
   \<and> size_bst (tree_f (fst (loadFromFile CoursePlanner_init ''courses.csv''
        (Some [''CSCI100,First'', ''MATH101,Algebra'', ''csci100,Second''])))) <
      length [''CSCI100,First'', ''MATH101,Algebra'', ''csci100,Second'']"
proof -
  have "snd (loadFromFile CoursePlanner_init ''courses.csv''
      (Some [''CSCI100,First'', ''MATH101,Algebra'', ''csci100,Second''])) = ([], Inr (3, 0))"
    by code_simp
  then have a: "loadFromFile CoursePlanner_init ''courses.csv''
      (Some [''CSCI100,First'', ''MATH101,Algebra'', ''csci100,Second'']) =
      (fst (loadFromFile CoursePlanner_init ''courses.csv''
         (Some [''CSCI100,First'', ''MATH101,Algebra'', ''csci100,Second''])), [], Inr (3, 0))"
    by (simp add: prod_eq_iff)
  have b: "\<forall>l\<in>set [''CSCI100,First'', ''MATH101,Algebra'', ''csci100,Second'']. isValid l"
    by code_simp
  have c: "\<not> distinct (map (\<lambda>l. number (rowCourse l))
      [''CSCI100,First'', ''MATH101,Algebra'', ''csci100,Second''])"
    by code_simp
  have d: "\<forall>l\<in>set example_rows. isValid l"
    unfolding example_rows_def by code_simp
  have e: "distinct (map (\<lambda>l. number (rowCourse l)) example_rows)"
    unfolding example_rows_def by code_simp
  from size_counts_distinct_numbers [OF example_load d] e
  have "size_bst (tree_f example_planner) = length example_rows" by blast
  moreover from size_counts_distinct_numbers [OF a b] c
  have "size_bst (tree_f (fst (loadFromFile CoursePlanner_init ''courses.csv''
        (Some [''CSCI100,First'', ''MATH101,Algebra'', ''csci100,Second''])))) <
      length [''CSCI100,First'', ''MATH101,Algebra'', ''csci100,Second'']" by blast
  ultimately show ?thesis by (rule conjI)
qed

text \<open>
  Claim C10. After a successful load the index has exactly the numbers of the stored
  courses, it maps each of them to the title of the stored course, and so a prerequisite
  that is the number of a stored course gets the line with that course's title.
\<close>

theorem index_agrees_with_store:
  assumes "loadFromFile p filename (Some lines) = (p', w, Inr stats)"
  shows "dom (index_f p') = number ` set (inOrder (tree_f p'))
       \<and> (\<forall>c\<in>set (inOrder (tree_f p')). index_f p' (number c) = Some (title c))
       \<and> (\<forall>c\<in>set (inOrder (tree_f p')). \<forall>d\<in>set (inOrder (tree_f p')).
            number d \<in> set (prereqs c) \<longrightarrow>
              prereqLine (index_f p') (number d) = Resolved (number d) (title d))"
proof -
  note wf = load_Some_wf [OF assms]
  note idx = load_Some_index_apply [OF assms]
  have stored: "index_f p' (number c) = Some (title c)" if "c \<in> set (inOrder (tree_f p'))" for c
  proof -
    from that have "find_bst (tree_f p') (number c) = Some c"
      by (simp add: wf_find_iff [OF wf])
    then show ?thesis by (simp add: idx)
  qed
  have "num \<in> dom (index_f p') \<longleftrightarrow> num \<in> number ` set (inOrder (tree_f p'))" for num
  proof -
    have "num \<in> dom (index_f p') \<longleftrightarrow> find_bst (tree_f p') num \<noteq> None"
      by (simp add: idx dom_def)
    then show ?thesis by (simp add: wf_find_None [OF wf])
  qed
  then have "dom (index_f p') = number ` set (inOrder (tree_f p'))" by blast
  moreover from stored
  have "\<forall>c\<in>set (inOrder (tree_f p')). index_f p' (number c) = Some (title c)" by blast
  moreover from stored
  have "\<forall>c\<in>set (inOrder (tree_f p')). \<forall>d\<in>set (inOrder (tree_f p')).
      number d \<in> set (prereqs c) \<longrightarrow>
        prereqLine (index_f p') (number d) = Resolved (number d) (title d)"
    by (simp add: prereqLine_def)
  ultimately show ?thesis by blast
qed

theorem index_agrees_with_store_witness:
  "dom (index_f example_planner) = number ` set (inOrder (tree_f example_planner))
   \<and> index_f example_planner ''CSCI200'' = Some ''Data Structures''
   \<and> prereqLine (index_f example_planner) ''CSCI100''
       = Resolved ''CSCI100'' ''Introduction to Computer Science''"
proof -
  let ?c = "\<lparr>number = ''CSCI200'', title = ''Data Structures'', prereqs = [''CSCI100'']\<rparr>"
  let ?d = "\<lparr>number = ''CSCI100'', title = ''Introduction to Computer Science'', prereqs = []\<rparr>"
  have c: "?c \<in> set (inOrder (tree_f example_planner))"
    unfolding example_planner_def by code_simp
  have d: "?d \<in> set (inOrder (tree_f example_planner))"
    unfolding example_planner_def by code_simp
  note all = index_agrees_with_store [OF example_load]
  from all have "dom (index_f example_planner) = number ` set (inOrder (tree_f example_planner))"
    by blast
  moreover from all c have "index_f example_planner (number ?c) = Some (title ?c)"
    by blast
  moreover from all c d have "number ?d \<in> set (prereqs ?c) \<longrightarrow>
      prereqLine (index_f example_planner) (number ?d) = Resolved (number ?d) (title ?d)"
    by blast
  ultimately show ?thesis by simp
qed

end
